theory Spec2Isabelle
  imports Main "HOL-Library.AList" "HOL-Library.Char_ord" "HOL-Library.List_Lexorder"
begin

section \<open>Python strings\<close>

text \<open>
  A Python \<open>str\<close> is modelled as a HOL \<open>string\<close>; a \<open>char\<close> stands for the code point
  of the same number, so the model covers texts over the code points below 256.
  \<open>py_isspace\<close> is \<open>str.isspace\<close> on one character (the set \<open>str.strip()\<close> removes) and
  \<open>is_linebreak\<close> is the set of line boundaries of \<open>str.splitlines()\<close>, both restricted
  to that range.
\<close>

definition py_isspace :: "char \<Rightarrow> bool" where
  "py_isspace c =
     (let n = (of_char c :: nat)
      in (9 \<le> n \<and> n \<le> 13) \<or> (28 \<le> n \<and> n \<le> 32) \<or> n = 133 \<or> n = 160)"

definition strip :: "string \<Rightarrow> string" where
  "strip s = rev (dropWhile py_isspace (rev (dropWhile py_isspace s)))"

definition is_linebreak :: "char \<Rightarrow> bool" where
  "is_linebreak c =
     (let n = (of_char c :: nat)
      in (10 \<le> n \<and> n \<le> 13) \<or> (28 \<le> n \<and> n \<le> 30) \<or> n = 133)"

text \<open>
  \<open>text.splitlines()\<close>: the text is cut at every line boundary, a carriage return
  directly followed by a line feed counts as one boundary, the boundaries are not
  kept, and a text that ends in a boundary has no empty last line. The first
  argument holds the characters of the current line, last one first.
\<close>

fun splitlines_from :: "string \<Rightarrow> string \<Rightarrow> string list" where
  "splitlines_from cur [] = (if cur = [] then [] else [rev cur])"
| "splitlines_from cur [c] = (if is_linebreak c then [rev cur] else [rev (c # cur)])"
| "splitlines_from cur (c # d # cs) =
     (if c = CHR 0x0D \<and> d = CHR ''\<newline>'' then rev cur # splitlines_from [] cs
      else if is_linebreak c then rev cur # splitlines_from [] (d # cs)
      else splitlines_from (c # cur) (d # cs))"

definition splitlines :: "string \<Rightarrow> string list" where
  "splitlines text = splitlines_from [] text"

text \<open>\<open>sep.join(xs)\<close>.\<close>

fun join_str :: "string \<Rightarrow> string list \<Rightarrow> string" where
  "join_str sep [] = []"
| "join_str sep [x] = x"
| "join_str sep (x # y # ys) = x @ sep @ join_str sep (y # ys)"

definition endswith_newline :: "string \<Rightarrow> bool" where
  "endswith_newline s = (s \<noteq> [] \<and> last s = CHR ''\<newline>'')"

section \<open>Values loaded from YAML\<close>

text \<open>
  The values \<open>yaml.safe_load\<close> hands to the program: null, booleans, integers, strings,
  sequences and mappings. Mappings have string keys, as the annotations of the source
  say (\<open>Dict[str, Any]\<close>), and keep their insertion order, so a \<open>dict\<close> is an association
  list: a lookup reads the first pair of a key, \<open>d[k] = v\<close> is \<open>AList.update\<close> (the value
  is replaced in place, a new key goes to the end). Floats, timestamps, binary and set
  nodes are outside the model, and so are YAML anchors: a loaded value is a tree, no
  two of its nodes are the same object.
\<close>

datatype pyval =
    PNone
  | PBool bool
  | PInt int
  | PStr string
  | PList "pyval list"
  | PDict "(string \<times> pyval) list"

type_synonym pydict = "(string \<times> pyval) list"

text \<open>
  An uncaught exception ends the run: every function that can raise returns
  \<open>error + 'a\<close>, with \<open>Inl\<close> the exception.
\<close>

datatype error = TypeError | AttributeError | KeyError | YAMLError

definition bindE :: "error + 'a \<Rightarrow> ('a \<Rightarrow> error + 'b) \<Rightarrow> error + 'b" where
  "bindE m f = (case m of Inl e \<Rightarrow> Inl e | Inr x \<Rightarrow> f x)"

text \<open>
  PyYAML is not part of the repository: the two functions the program calls are
  parameters of the model. \<open>safe_load\<close> may raise on a text that is not YAML.
\<close>

record yaml =
  safe_load :: "string \<Rightarrow> error + pyval"
  dump :: "pyval \<Rightarrow> string"

section \<open>The document codec\<close>

definition FRONT_MATTER_DELIM :: string where
  "FRONT_MATTER_DELIM = ''---''"

text \<open>
  \<open>next(i for i in range(start, len(lines)) if lines[i].strip() == FRONT_MATTER_DELIM)\<close>,
  given the lines from index \<open>start\<close> on; \<open>None\<close> is \<open>StopIteration\<close>.
\<close>

fun next_delim :: "nat \<Rightarrow> string list \<Rightarrow> nat option" where
  "next_delim i [] = None"
| "next_delim i (l # ls) =
     (if strip l = FRONT_MATTER_DELIM then Some i else next_delim (Suc i) ls)"

definition split_front_matter :: "yaml \<Rightarrow> string \<Rightarrow> error + (string \<times> pyval \<times> string)" where
  "split_front_matter y text =
     (let lines = splitlines text in
      if length lines \<ge> 1 \<and> strip (hd lines) = FRONT_MATTER_DELIM then
        (case next_delim 1 (drop 1 lines) of
           None \<Rightarrow> Inr ([], PDict [], text)
         | Some end_idx \<Rightarrow>
             (let fm_text = join_str ''\<newline>'' (take (end_idx - 1) (drop 1 lines));
                  rest = join_str ''\<newline>'' (drop (end_idx + 1) lines)
              in bindE (if strip fm_text \<noteq> [] then safe_load y fm_text else Inr (PDict []))
                   (\<lambda>data. Inr ([], if data = PNone then PDict [] else data, rest))))
      else Inr ([], PDict [], text))"

definition join_front_matter :: "yaml \<Rightarrow> pyval \<Rightarrow> string" where
  "join_front_matter y front =
     FRONT_MATTER_DELIM @ ''\<newline>'' @ strip (dump y front) @ ''\<newline>''
       @ FRONT_MATTER_DELIM @ ''\<newline>''"

text \<open>
  The recomposition in \<open>main\<close> (the two lines after \<open>join_front_matter\<close>): the body is
  appended when \<open>trailing_body.strip()\<close> is not empty.
\<close>

definition attach_body :: "string \<Rightarrow> string \<Rightarrow> string" where
  "attach_body output_text trailing_body =
     (if strip trailing_body \<noteq> [] then
        (if endswith_newline output_text then output_text @ trailing_body
         else output_text @ ''\<newline>'' @ trailing_body)
      else output_text)"

section \<open>Python operations on loaded values\<close>

definition truthy :: "pyval \<Rightarrow> bool" where
  "truthy v =
     (case v of PNone \<Rightarrow> False | PBool b \<Rightarrow> b | PInt n \<Rightarrow> n \<noteq> 0 | PStr s \<Rightarrow> s \<noteq> []
      | PList xs \<Rightarrow> xs \<noteq> [] | PDict d \<Rightarrow> d \<noteq> [])"

text \<open>\<open>d.get(k)\<close> and \<open>d.setdefault(k, v)\<close> on a \<open>dict\<close>.\<close>

definition dict_get :: "pydict \<Rightarrow> string \<Rightarrow> pyval" where
  "dict_get d k = (case map_of d k of None \<Rightarrow> PNone | Some v \<Rightarrow> v)"

definition setdefault :: "string \<Rightarrow> pyval \<Rightarrow> pydict \<Rightarrow> pydict" where
  "setdefault k v d = (case map_of d k of None \<Rightarrow> d @ [(k, v)] | Some _ \<Rightarrow> d)"

text \<open>\<open>v in (None, "", [])\<close> and \<open>v in (None, "")\<close>.\<close>

definition is_empty3 :: "pyval \<Rightarrow> bool" where
  "is_empty3 v = (v = PNone \<or> v = PStr [] \<or> v = PList [])"

definition is_empty2 :: "pyval \<Rightarrow> bool" where
  "is_empty2 v = (v = PNone \<or> v = PStr [])"

text \<open>\<open>k in s\<close> on two strings: \<open>k\<close> occurs in \<open>s\<close>.\<close>

fun contains_str :: "string \<Rightarrow> string \<Rightarrow> bool" where
  "contains_str k [] = (k = [])"
| "contains_str k (c # cs) = (take (length k) (c # cs) = k \<or> contains_str k cs)"

text \<open>
  The operations the program applies to a value it has not checked to be a \<open>dict\<close>:
  \<open>k in p\<close>, \<open>p.get(k)\<close>, \<open>p[k]\<close> and \<open>p[k] = v\<close>, for a string \<open>k\<close>. On a string \<open>in\<close> is
  the substring test and on a list it is membership; the other three raise on
  everything but a \<open>dict\<close>.
\<close>

definition py_contains :: "string \<Rightarrow> pyval \<Rightarrow> error + bool" where
  "py_contains k p =
     (case p of PDict d \<Rightarrow> Inr (map_of d k \<noteq> None)
      | PStr s \<Rightarrow> Inr (contains_str k s)
      | PList xs \<Rightarrow> Inr (List.member xs (PStr k))
      | _ \<Rightarrow> Inl TypeError)"

definition py_get :: "pyval \<Rightarrow> string \<Rightarrow> error + pyval" where
  "py_get p k = (case p of PDict d \<Rightarrow> Inr (dict_get d k) | _ \<Rightarrow> Inl AttributeError)"

definition py_getitem :: "pyval \<Rightarrow> string \<Rightarrow> error + pyval" where
  "py_getitem p k =
     (case p of PDict d \<Rightarrow> (case map_of d k of None \<Rightarrow> Inl KeyError | Some v \<Rightarrow> Inr v)
      | _ \<Rightarrow> Inl TypeError)"

definition py_setitem :: "pyval \<Rightarrow> string \<Rightarrow> pyval \<Rightarrow> error + pyval" where
  "py_setitem p k v =
     (case p of PDict d \<Rightarrow> Inr (PDict (AList.update k v d)) | _ \<Rightarrow> Inl TypeError)"

text \<open>
  \<open>int(v)\<close>, with \<open>None\<close> for the \<open>TypeError\<close> and \<open>ValueError\<close> the program catches. A
  string is a decimal literal: surrounding whitespace, an optional sign, digits with
  single underscores between them (the interpreter's limit on the number of digits is
  not modelled).
\<close>

definition is_digit :: "char \<Rightarrow> bool" where
  "is_digit c = (48 \<le> (of_char c :: nat) \<and> (of_char c :: nat) \<le> 57)"

definition digit_val :: "char \<Rightarrow> int" where
  "digit_val c = int (of_char c) - 48"

fun int_digits :: "int \<Rightarrow> string \<Rightarrow> int option" where
  "int_digits acc [] = Some acc"
| "int_digits acc [c] = (if is_digit c then Some (acc * 10 + digit_val c) else None)"
| "int_digits acc (c # d # cs) =
     (if is_digit c then int_digits (acc * 10 + digit_val c) (d # cs)
      else if c = CHR ''_'' \<and> is_digit d then int_digits acc (d # cs)
      else None)"

definition int_of_str :: "string \<Rightarrow> int option" where
  "int_of_str s =
     (let t = strip s;
          neg = (t \<noteq> [] \<and> hd t = CHR ''-'');
          body = (if t \<noteq> [] \<and> (hd t = CHR ''-'' \<or> hd t = CHR ''+'') then tl t else t)
      in if body \<noteq> [] \<and> is_digit (hd body)
         then map_option (\<lambda>n. if neg then - n else n) (int_digits 0 body)
         else None)"

definition py_int :: "pyval \<Rightarrow> int option" where
  "py_int v =
     (case v of PBool b \<Rightarrow> Some (if b then 1 else 0) | PInt n \<Rightarrow> Some n
      | PStr s \<Rightarrow> int_of_str s | _ \<Rightarrow> None)"

text \<open>\<open>max(ws, default=d)\<close>.\<close>

definition py_max :: "int list \<Rightarrow> int \<Rightarrow> int" where
  "py_max ws d = (case ws of [] \<Rightarrow> d | w # ws' \<Rightarrow> foldl max w ws')"

text \<open>
  \<open>Path(name).stem\<close> for a bare file name: the name up to its last dot, when that dot
  is neither the first nor the last character (pathlib up to Python 3.13).
\<close>

definition path_stem :: "string \<Rightarrow> string" where
  "path_stem name =
     (let k = length (takeWhile (\<lambda>c. c \<noteq> CHR ''.'') (rev name))
      in if k < length name \<and> 0 < length name - 1 - k \<and> 0 < k
         then take (length name - 1 - k) name else name)"

text \<open>\<open>s.split(sep)\<close> for a one-character separator.\<close>

fun split_on :: "char \<Rightarrow> string \<Rightarrow> string list" where
  "split_on sep [] = [[]]"
| "split_on sep (c # cs) =
     (if c = sep then [] # split_on sep cs
      else (case split_on sep cs of [] \<Rightarrow> [[c]] | l # ls \<Rightarrow> (c # l) # ls))"

text \<open>\<open>[t.strip() for t in s.split(",") if t.strip()]\<close>.\<close>

definition comma_list :: "string \<Rightarrow> string list" where
  "comma_list s = filter (\<lambda>t. t \<noteq> []) (map strip (split_on CHR '','' s))"

section \<open>The resource builder\<close>

text \<open>
  An image of the directory listing, with what \<open>extract_metadata\<close> returns for it
  (the EXIF decoder is not part of the repository).
\<close>

record image =
  img_name :: string
  img_date :: string
  img_loc :: string

definition build_resource_for_image :: "image \<Rightarrow> string list \<Rightarrow> string \<Rightarrow> pydict" where
  "build_resource_for_image img common_tags default_location =
     (let location_val = (if img_loc img \<noteq> [] then img_loc img else default_location);
          title = path_stem (img_name img);
          params = [(''date'', PStr (img_date img))]
            @ (if location_val \<noteq> [] then [(''location'', PStr location_val)] else [])
            @ (if common_tags \<noteq> [] then [(''tags'', PList (map PStr common_tags))] else [])
      in [(''src'', PStr (img_name img)), (''title'', PStr title), (''params'', PDict params)])"

section \<open>The reconciler\<close>

text \<open>
  The keys of \<open>existing_by_src\<close> are the \<open>src\<close> values of the manifest, which need not
  be strings: a number or a boolean is a key too (\<open>True\<close> and \<open>1\<close> are the same key), a
  list or a mapping is unhashable.
\<close>

datatype pykey = KStr string | KInt int | KNone

definition key_of :: "pyval \<Rightarrow> error + pykey" where
  "key_of v =
     (case v of PNone \<Rightarrow> Inr KNone | PBool b \<Rightarrow> Inr (KInt (if b then 1 else 0))
      | PInt n \<Rightarrow> Inr (KInt n) | PStr s \<Rightarrow> Inr (KStr s) | _ \<Rightarrow> Inl TypeError)"

type_synonym by_src = "(pykey \<times> pydict) list"

fun resources_to_dict_from :: "by_src \<Rightarrow> pyval list \<Rightarrow> error + by_src" where
  "resources_to_dict_from acc [] = Inr acc"
| "resources_to_dict_from acc (r # rs) =
     (case r of
        PDict d \<Rightarrow>
          (if truthy (dict_get d ''src'')
           then bindE (key_of (dict_get d ''src''))
                  (\<lambda>k. resources_to_dict_from (AList.update k d acc) rs)
           else resources_to_dict_from acc rs)
      | _ \<Rightarrow> resources_to_dict_from acc rs)"

definition resources_to_dict :: "pyval list \<Rightarrow> error + by_src" where
  "resources_to_dict resources = resources_to_dict_from [] resources"

definition has_cover :: "pydict \<Rightarrow> bool" where
  "has_cover r =
     (case dict_get r ''params'' of PDict p \<Rightarrow> dict_get p ''cover'' = PBool True | _ \<Rightarrow> False)"

definition ensure_cover :: "pydict list \<Rightarrow> error + pydict list" where
  "ensure_cover resources =
     (if \<not> list_ex has_cover resources \<and> resources \<noteq> [] then
        (let r0 = setdefault ''params'' (PDict []) (hd resources)
         in bindE (py_getitem (PDict r0) ''params'') (\<lambda>p.
            bindE (py_setitem p ''cover'' (PBool True)) (\<lambda>p'.
              Inr (AList.update ''params'' p' r0 # tl resources))))
      else Inr resources)"

text \<open>
  The first loop of \<open>update_weights_preserve_existing\<close>:
  \<open>int(r.get("params", {}).get("weight"))\<close> under the \<open>try\<close>, and the dictionary
  \<open>existing_weights\<close> it fills.
\<close>

definition existing_weight :: "pydict \<Rightarrow> error + int option" where
  "existing_weight r =
     bindE (py_get (case map_of r ''params'' of None \<Rightarrow> PDict [] | Some p \<Rightarrow> p) ''weight'')
       (\<lambda>w. Inr (py_int w))"

fun collect_weights :: "(pykey \<times> int) list \<Rightarrow> by_src \<Rightarrow> error + (pykey \<times> int) list" where
  "collect_weights acc [] = Inr acc"
| "collect_weights acc ((src, r) # rest) =
     bindE (existing_weight r)
       (\<lambda>w. collect_weights (case w of None \<Rightarrow> acc | Some n \<Rightarrow> AList.update src n acc) rest)"

text \<open>The second pass: the entries without a weight take the next integers.\<close>

fun assign_weights :: "int \<Rightarrow> pydict list \<Rightarrow> error + pydict list" where
  "assign_weights next_w [] = Inr []"
| "assign_weights next_w (r # rs) =
     bindE (py_getitem (PDict r) ''params'') (\<lambda>p.
     bindE (py_contains ''weight'' p) (\<lambda>present.
     bindE (if \<not> present then Inr True
            else bindE (py_getitem p ''weight'') (\<lambda>w. Inr (is_empty2 w))) (\<lambda>missing.
       if missing then
         bindE (py_setitem p ''weight'' (PInt next_w)) (\<lambda>p'.
         bindE (assign_weights (next_w + 1) rs) (\<lambda>rs'.
           Inr (AList.update ''params'' p' r # rs')))
       else bindE (assign_weights next_w rs) (\<lambda>rs'. Inr (r # rs')))))"

definition update_weights_preserve_existing :: "pydict list \<Rightarrow> by_src \<Rightarrow> error + pydict list" where
  "update_weights_preserve_existing sorted_resources previous_by_src =
     bindE (collect_weights [] previous_by_src) (\<lambda>existing_weights.
       (let max_w = py_max (map snd existing_weights) 0;
            with_params = map (setdefault ''params'' (PDict [])) sorted_resources
        in assign_weights (max_w + 1) with_params))"

text \<open>
  The merge loop of \<open>main\<close>. \<open>fill_key des p key\<close> is one round of the inner loop on
  the value \<open>p\<close> of \<open>r["params"]\<close>, \<open>des\<close> being \<open>desired_by_src[src]\<close>; \<open>merge_existing\<close>
  is the branch of a \<open>src\<close> found in \<open>existing_by_src\<close>. The loop changes the entries of
  \<open>existing_by_src\<close> in place, so it returns that dictionary with the merged list.
\<close>

definition fill_key :: "pydict \<Rightarrow> pyval \<Rightarrow> string \<Rightarrow> error + pyval" where
  "fill_key des p key =
     bindE (py_contains key p) (\<lambda>present.
     bindE (if \<not> present then Inr True
            else bindE (py_get p key) (\<lambda>v. Inr (is_empty3 v))) (\<lambda>fill.
       if fill then
         bindE (py_getitem (PDict des) ''params'') (\<lambda>dp.
         bindE (py_get dp key) (\<lambda>val.
           if \<not> is_empty3 val then py_setitem p key val else Inr p))
       else Inr p))"

definition merge_existing :: "string \<Rightarrow> pydict \<Rightarrow> pydict \<Rightarrow> error + pydict" where
  "merge_existing src des r =
     (let r1 = AList.update ''title'' (PStr (path_stem src)) r;
          r2 = setdefault ''params'' (PDict []) r1
      in bindE (fill_key des (dict_get r2 ''params'') ''date'') (\<lambda>p1.
         bindE (fill_key des p1 ''location'') (\<lambda>p2.
         bindE (fill_key des p2 ''tags'') (\<lambda>p3.
           Inr (AList.update ''params'' p3 r2)))))"

fun merge_loop ::
  "(string \<times> pydict) list \<Rightarrow> string list \<Rightarrow> by_src \<Rightarrow> pydict list \<Rightarrow> error + (by_src \<times> pydict list)"
where
  "merge_loop desired_by_src [] existing_by_src merged = Inr (existing_by_src, merged)"
| "merge_loop desired_by_src (src # srcs) existing_by_src merged =
     (case map_of desired_by_src src of
        None \<Rightarrow> Inl KeyError
      | Some des \<Rightarrow>
          (case map_of existing_by_src (KStr src) of
             Some r \<Rightarrow>
               bindE (merge_existing src des r) (\<lambda>r'.
                 merge_loop desired_by_src srcs
                   (AList.update (KStr src) r' existing_by_src) (merged @ [r']))
           | None \<Rightarrow> merge_loop desired_by_src srcs existing_by_src (merged @ [des])))"

text \<open>
  \<open>desired_by_src\<close>, filled in the order of the listing, and the part of \<open>main\<close> from
  the reading of \<open>front["resources"]\<close> to \<open>ensure_cover\<close>: the new resource list.
\<close>

definition build_desired :: "image list \<Rightarrow> string list \<Rightarrow> string \<Rightarrow> (string \<times> pydict) list" where
  "build_desired images common_tags default_location =
     foldl (\<lambda>d img. AList.update (img_name img)
                      (build_resource_for_image img common_tags default_location) d)
       [] images"

definition existing_of_front :: "pydict \<Rightarrow> error + by_src" where
  "existing_of_front front =
     (case (case map_of front ''resources'' of None \<Rightarrow> PList [] | Some v \<Rightarrow> v) of
        PList rs \<Rightarrow> resources_to_dict rs
      | _ \<Rightarrow> Inr [])"

definition merge_resources ::
  "pydict \<Rightarrow> image list \<Rightarrow> string list \<Rightarrow> string \<Rightarrow> error + (by_src \<times> pydict list)" where
  "merge_resources front images common_tags default_location =
     bindE (existing_of_front front) (\<lambda>existing_by_src.
       (let desired_by_src = build_desired images common_tags default_location
        in merge_loop desired_by_src (sort (map fst desired_by_src)) existing_by_src []))"

definition reconcile :: "pydict \<Rightarrow> image list \<Rightarrow> string list \<Rightarrow> string \<Rightarrow> error + pydict list" where
  "reconcile front images common_tags default_location =
     bindE (merge_resources front images common_tags default_location)
       (\<lambda>(existing_by_src, merged).
          bindE (update_weights_preserve_existing merged existing_by_src) ensure_cover)"

section \<open>The run\<close>

record cli_args =
  common_tags :: string
  default_location :: string
  page_title :: "string option"
  page_date :: "string option"
  description :: string
  categories :: string
  featured :: bool

text \<open>
  What \<open>main\<close> reads from the outside: the name of the directory, today's date, the
  text of \<open>index.md\<close> when the file exists, and the images \<open>list_images\<close> returns.
\<close>

record directory =
  dir_name :: string
  today :: string
  index_text :: "string option"
  images :: "image list"

definition template :: "directory \<Rightarrow> cli_args \<Rightarrow> pydict" where
  "template dir args =
     (let title = (case page_title args of None \<Rightarrow> dir_name dir
                   | Some t \<Rightarrow> if t \<noteq> [] then t else dir_name dir);
          date = (case page_date args of None \<Rightarrow> today dir
                  | Some d \<Rightarrow> if d \<noteq> [] then d else today dir);
          cats = comma_list (categories args)
      in [(''title'', PStr title), (''date'', PStr date), (''description'', PStr (description args))]
         @ (if cats \<noteq> [] then [(''categories'', PList (map PStr cats))] else [])
         @ (if featured args then [(''params'', PDict [(''featured'', PBool True)])] else []))"

definition load_front :: "yaml \<Rightarrow> directory \<Rightarrow> cli_args \<Rightarrow> error + (pydict \<times> string)" where
  "load_front y dir args =
     (case index_text dir of
        Some text \<Rightarrow>
          bindE (split_front_matter y text) (\<lambda>(leading, front, trailing_body).
            Inr (case front of PDict d \<Rightarrow> d | _ \<Rightarrow> [], trailing_body))
      | None \<Rightarrow> Inr (template dir args, []))"

text \<open>
  \<open>main\<close> returns the text it writes to \<open>index.md\<close> (or prints, in a dry run). Its two
  checks before anything is read (PyYAML can be imported, the directory exists) end the
  run with \<open>die\<close>; the model starts after them.
\<close>

definition main :: "yaml \<Rightarrow> directory \<Rightarrow> cli_args \<Rightarrow> error + string" where
  "main y dir args =
     bindE (load_front y dir args) (\<lambda>(front, trailing_body).
     bindE (reconcile front (images dir) (comma_list (common_tags args)) (default_location args))
       (\<lambda>merged.
          (let front' = AList.update ''resources'' (PList (map PDict merged)) front
           in Inr (attach_body (join_front_matter y (PDict front')) trailing_body))))"

section \<open>Reading an entry\<close>

text \<open>
  \<open>param_of r k\<close> is the value of \<open>r["params"][k]\<close>, when \<open>r["params"]\<close> is a \<open>dict\<close> with
  the key \<open>k\<close>. An entry lacks a weight when that key is missing or holds \<open>None\<close> or
  the empty string; its valid weight is the integer \<open>int\<close> reads from the value.
\<close>

definition param_of :: "pydict \<Rightarrow> string \<Rightarrow> pyval option" where
  "param_of r k = (case map_of r ''params'' of Some (PDict p) \<Rightarrow> map_of p k | _ \<Rightarrow> None)"

definition empty_opt :: "pyval option \<Rightarrow> bool" where
  "empty_opt v = (case v of None \<Rightarrow> True | Some x \<Rightarrow> is_empty3 x)"

definition lacks_weight :: "pydict \<Rightarrow> bool" where
  "lacks_weight r = (case param_of r ''weight'' of None \<Rightarrow> True | Some w \<Rightarrow> is_empty2 w)"

definition valid_weight :: "pydict \<Rightarrow> int option" where
  "valid_weight r = (case param_of r ''weight'' of None \<Rightarrow> None | Some w \<Rightarrow> py_int w)"

text \<open>\<open>r["params"]\<close> is missing or is a \<open>dict\<close>.\<close>

definition params_is_dict :: "pydict \<Rightarrow> bool" where
  "params_is_dict r = (case map_of r ''params'' of None \<Rightarrow> True | Some (PDict d) \<Rightarrow> True | Some _ \<Rightarrow> False)"

section \<open>Notions for the proofs\<close>

text \<open>
  \<open>merge_one\<close> is the entry the merge loop appends for one \<open>src\<close>. \<open>desired_ok\<close> and
  \<open>keyed\<close> say what the program builds: an entry of \<open>desired_by_src\<close> carries its key as
  \<open>src\<close>, the stem as \<open>title\<close> and a \<open>dict\<close> as \<open>params\<close>; an entry of \<open>existing_by_src\<close> is
  filed under its \<open>src\<close>. \<open>same_weights\<close> relates two dictionaries with the same keys in
  the same order whose entries answer \<open>existing_weight\<close> alike.
\<close>



definition merge_one :: "(string \<times> pydict) list \<Rightarrow> by_src \<Rightarrow> string \<Rightarrow> error + pydict" where
  "merge_one desired_by_src existing_by_src src =
     (case map_of desired_by_src src of
        None \<Rightarrow> Inl KeyError
      | Some des \<Rightarrow>
          (case map_of existing_by_src (KStr src) of
             Some r \<Rightarrow> merge_existing src des r
           | None \<Rightarrow> Inr des))"

definition desired_ok :: "(string \<times> pydict) list \<Rightarrow> bool" where
  "desired_ok desired_by_src =
     (\<forall>s des. map_of desired_by_src s = Some des \<longrightarrow>
        map_of des ''src'' = Some (PStr s) \<and> (\<exists>dp. map_of des ''params'' = Some (PDict dp))
        \<and> map_of des ''title'' = Some (PStr (path_stem s)))"

definition keyed :: "by_src \<Rightarrow> bool" where
  "keyed existing_by_src =
     (\<forall>k r. map_of existing_by_src k = Some r \<longrightarrow> key_of (dict_get r ''src'') = Inr k)"

definition same_weights :: "by_src \<Rightarrow> by_src \<Rightarrow> bool" where
  "same_weights ex ex' =
     list_all2 (\<lambda>a b. fst b = fst a \<and> existing_weight (snd b) = existing_weight (snd a)) ex ex'"

text \<open>\<open>entry_key r\<close> is the key under which \<open>resources_to_dict\<close> files the entry \<open>r\<close>, if it keeps it.\<close>

definition entry_key :: "pyval \<Rightarrow> pykey option" where
  "entry_key r =
     (case r of
        PDict d \<Rightarrow>
          (if truthy (dict_get d ''src'')
           then (case key_of (dict_get d ''src'') of Inr k \<Rightarrow> Some k | Inl e \<Rightarrow> None)
           else None)
      | _ \<Rightarrow> None)"

text \<open>
  The valid weights of the existing entries, and the maximum the new weights start
  after: \<open>0\<close> when no weight is valid. \<open>reweighted r w r'\<close> says what the weight pass does
  to one entry: an entry that lacks a weight gets \<open>params.weight = w\<close> and is otherwise
  unchanged, any other entry is returned as it is.
\<close>

definition valid_weights :: "by_src \<Rightarrow> int list" where
  "valid_weights previous_by_src = List.map_filter (\<lambda>kr. valid_weight (snd kr)) previous_by_src"

definition max_weight :: "by_src \<Rightarrow> int" where
  "max_weight previous_by_src =
     (if valid_weights previous_by_src = [] then 0 else Max (set (valid_weights previous_by_src)))"

definition reweighted :: "pydict \<Rightarrow> int \<Rightarrow> pydict \<Rightarrow> bool" where
  "reweighted r w r' =
     (if lacks_weight r
      then param_of r' ''weight'' = Some (PInt w)
        \<and> (\<forall>k. k \<noteq> ''weight'' \<longrightarrow> param_of r' k = param_of r k)
        \<and> (\<forall>k. k \<noteq> ''params'' \<longrightarrow> map_of r' k = map_of r k)
      else r' = r)"

section \<open>Example inputs\<close>

text \<open>
  A stand-in for PyYAML in the examples: on the three documents they use it answers
  as PyYAML does (block style, keys in insertion order); every other text is rejected
  and every other value is written as an empty text.
\<close>

definition example_yaml :: yaml where
  "example_yaml =
     \<lparr>safe_load = (\<lambda>s.
        if s = ''title: T'' then Inr (PDict [(''title'', PStr ''T'')])
        else if s = ''title: T\<newline>resources: []''
          then Inr (PDict [(''title'', PStr ''T''), (''resources'', PList [])])
        else Inl YAMLError),
      dump = (\<lambda>v.
        if v = PDict [(''title'', PStr ''T''), (''resources'', PList [])]
          then ''title: T\<newline>resources: []\<newline>''
        else [])\<rparr>"

text \<open>An empty directory whose \<open>index.md\<close> has a body that ends in an empty line.\<close>

definition example_dir :: directory where
  "example_dir =
     \<lparr>dir_name = ''Kerala'', today = ''2024-03-01'',
      index_text = Some ''---\<newline>title: T\<newline>---\<newline>Body\<newline>\<newline>'',
      images = []\<rparr>"

definition example_args :: cli_args where
  "example_args =
     \<lparr>common_tags = ''trip,2024'', default_location = ''Kerala'', page_title = None,
      page_date = None, description = ''Photos.'', categories = [], featured = False\<rparr>"


text \<open>
  A manifest with three entries and a directory with three images: \<open>a.jpg\<close> is new,
  \<open>b.jpg\<close> has an entry the user edited, the entry of \<open>c.jpg\<close> has an empty date and no
  weight, and the file of \<open>gone.jpg\<close> has been deleted.
\<close>

definition example_front :: pydict where
  "example_front =
     [(''title'', PStr ''Trip''),
      (''resources'', PList
        [PDict [(''src'', PStr ''b.jpg''), (''title'', PStr ''old''),
                (''params'', PDict [(''weight'', PInt 5), (''cover'', PBool True),
                                    (''tags'', PList [PStr ''custom''])])],
         PDict [(''src'', PStr ''gone.jpg''), (''params'', PDict [(''weight'', PStr ''12'')])],
         PDict [(''src'', PStr ''c.jpg''), (''caption'', PStr ''sea''),
                (''params'', PDict [(''date'', PStr [])])]])]"

definition example_images :: "image list" where
  "example_images =
     [\<lparr>img_name = ''a.jpg'', img_date = ''2024-01-01'', img_loc = ''1.000000,2.000000''\<rparr>,
      \<lparr>img_name = ''b.jpg'', img_date = ''2024-01-02'', img_loc = []\<rparr>,
      \<lparr>img_name = ''c.jpg'', img_date = ''2024-01-03'', img_loc = []\<rparr>]"


definition example_final :: "pydict list" where
  "example_final =
     [[(''src'', PStr ''a.jpg''), (''title'', PStr ''a''),
       (''params'', PDict [(''date'', PStr ''2024-01-01''), (''location'', PStr ''1.000000,2.000000''),
                           (''tags'', PList [PStr ''trip'', PStr ''2024'']), (''weight'', PInt 13)])],
      [(''src'', PStr ''b.jpg''), (''title'', PStr ''b''),
       (''params'', PDict [(''weight'', PInt 5), (''cover'', PBool True),
                           (''tags'', PList [PStr ''custom'']), (''date'', PStr ''2024-01-02''),
                           (''location'', PStr ''Kerala'')])],
      [(''src'', PStr ''c.jpg''), (''caption'', PStr ''sea''),
       (''params'', PDict [(''date'', PStr ''2024-01-03''), (''location'', PStr ''Kerala''),
                           (''tags'', PList [PStr ''trip'', PStr ''2024'']), (''weight'', PInt 14)]),
       (''title'', PStr ''c'')]]"






section \<open>Properties of the codec\<close>

lemma bindE_simps [simp]:
  "bindE (Inl e) f = Inl e"
  "bindE (Inr x) f = f x"
  by (simp_all add: bindE_def)

lemma bindE_eq_Inr: "bindE m f = Inr r \<longleftrightarrow> (\<exists>x. m = Inr x \<and> f x = Inr r)"
  by (cases m) simp_all

lemma next_delim_None: "next_delim i ls = None \<longleftrightarrow> (\<forall>l \<in> set ls. strip l \<noteq> FRONT_MATTER_DELIM)"
  by (induction ls arbitrary: i) auto

lemma join_front_matter_ends: "endswith_newline (join_front_matter y front)"
  by (simp add: join_front_matter_def endswith_newline_def)

lemmas string_eval =
  strip_def py_isspace_def is_linebreak_def splitlines_def FRONT_MATTER_DELIM_def

text \<open>
  Claim C7. A text whose first line is not a delimiter line (or that has no line at
  all), or whose first line is a delimiter line that no later delimiter line closes, is
  parsed without an exception into the empty header and the whole text, unchanged, as
  the body; PyYAML is not called.
\<close>

theorem split_front_matter_no_header:
  assumes "splitlines text = [] \<or> strip (hd (splitlines text)) \<noteq> FRONT_MATTER_DELIM
     \<or> (\<forall>l \<in> set (tl (splitlines text)). strip l \<noteq> FRONT_MATTER_DELIM)"
  shows "split_front_matter y text = Inr ([], PDict [], text)"
proof (cases "splitlines text = [] \<or> strip (hd (splitlines text)) \<noteq> FRONT_MATTER_DELIM")
  case True
  then show ?thesis
    by (auto simp: split_front_matter_def Let_def)
next
  case False
  with assms have "\<forall>l \<in> set (tl (splitlines text)). strip l \<noteq> FRONT_MATTER_DELIM"
    by blast
  then have "next_delim 1 (drop 1 (splitlines text)) = None"
    by (simp add: next_delim_None drop_Suc)
  then show ?thesis
    by (simp add: split_front_matter_def Let_def)
qed

theorem split_front_matter_no_header_witness:
  "strip (hd (splitlines ''---\<newline>title: T\<newline>Body\<newline>'')) = FRONT_MATTER_DELIM
   \<and> split_front_matter example_yaml ''---\<newline>title: T\<newline>Body\<newline>''
       = Inr ([], PDict [], ''---\<newline>title: T\<newline>Body\<newline>'')"
proof -
  have "\<forall>l \<in> set (tl (splitlines ''---\<newline>title: T\<newline>Body\<newline>'')). strip l \<noteq> FRONT_MATTER_DELIM"
    by (simp add: string_eval)
  then have "split_front_matter example_yaml ''---\<newline>title: T\<newline>Body\<newline>''
       = Inr ([], PDict [], ''---\<newline>title: T\<newline>Body\<newline>'')"
    using split_front_matter_no_header [of "''---\<newline>title: T\<newline>Body\<newline>''" example_yaml]
    by blast
  then show ?thesis
    by (simp add: string_eval)
qed

text \<open>
  Claim C8. The body of a text with a closed header should be the text after the closing
  delimiter line, byte for byte. The program returns the lines after the closing
  delimiter joined by line feeds instead: on a manifest whose body is \<open>Body\<close> and a line
  feed, the body returned is \<open>Body\<close> without the line feed.
\<close>

theorem split_front_matter_drops_final_newline:
  "split_front_matter example_yaml ''---\<newline>title: T\<newline>---\<newline>Body\<newline>''
     = Inr ([], PDict [(''title'', PStr ''T'')], ''Body'')"
  by (simp add: split_front_matter_def example_yaml_def string_eval)

text \<open>
  Claim C9, as the program has it. A body with a character that is not whitespace is
  written directly after the serialized header, with one line feed between them only
  when the header does not end in one (the header \<open>join_front_matter\<close> returns always
  does, so nothing is inserted); a body that is empty or all whitespace is left out.
\<close>

theorem attach_body_spec:
  "(strip body \<noteq> [] \<longrightarrow>
      attach_body hdr body = (if endswith_newline hdr then hdr @ body else hdr @ ''\<newline>'' @ body)
      \<and> attach_body (join_front_matter y front) body = join_front_matter y front @ body)
   \<and> (strip body = [] \<longrightarrow> attach_body hdr body = hdr)"
  by (simp add: attach_body_def join_front_matter_ends)

theorem attach_body_spec_witness:
  "strip ''Body'' \<noteq> [] \<and> attach_body ''---'' ''Body'' = ''---\<newline>Body''
   \<and> strip '' \<newline>'' = [] \<and> attach_body ''---'' '' \<newline>'' = ''---''"
  using attach_body_spec [of "''Body''" "''---''" example_yaml PNone]
    attach_body_spec [of "'' \<newline>''" "''---''" example_yaml PNone]
  by (simp add: string_eval endswith_newline_def)

text \<open>
  The claim as the specification states it fails: a body of one space is not empty, and
  it is not in the output.
\<close>

theorem attach_body_omits_blank_body:
  "'' '' \<noteq> [] \<and> attach_body (join_front_matter example_yaml PNone) '' ''
     \<noteq> join_front_matter example_yaml PNone @ '' ''"
  by (simp add: attach_body_def string_eval)

section \<open>Dictionaries\<close>

lemma dict_get_update: "dict_get (AList.update k v d) k' = (if k' = k then v else dict_get d k')"
  by (simp add: dict_get_def update_conv')

lemma map_of_setdefault:
  "map_of (setdefault k v d) k' = (if k' = k \<and> map_of d k = None then Some v else map_of d k')"
  by (auto simp: setdefault_def map_add_def split: option.splits)

lemma py_getitem_Inr: "py_getitem p k = Inr v \<longleftrightarrow> (\<exists>d. p = PDict d \<and> map_of d k = Some v)"
  by (auto simp: py_getitem_def split: pyval.splits option.splits)

lemma py_setitem_Inr:
  "py_setitem p k v = Inr p' \<longleftrightarrow> (\<exists>d. p = PDict d \<and> p' = PDict (AList.update k v d))"
  by (auto simp: py_setitem_def split: pyval.splits)

lemma py_get_Inr: "py_get p k = Inr v \<longleftrightarrow> (\<exists>d. p = PDict d \<and> v = dict_get d k)"
  by (auto simp: py_get_def split: pyval.splits)

section \<open>The cover\<close>

text \<open>
  When no entry is the cover, \<open>ensure_cover\<close> changes the first entry only, and in it
  only \<open>params.cover\<close>.
\<close>

lemma ensure_cover_sets_first:
  assumes "\<not> list_ex has_cover rs" and "rs \<noteq> []" and "ensure_cover rs = Inr out"
  shows "has_cover (hd out) \<and> tl out = tl rs \<and> out \<noteq> []
    \<and> (\<forall>k. k \<noteq> ''params'' \<longrightarrow> map_of (hd out) k = map_of (hd rs) k)
    \<and> (\<forall>k. k \<noteq> ''cover'' \<longrightarrow> param_of (hd out) k = param_of (hd rs) k)"
proof -
  obtain r rest where rs: "rs = r # rest"
    using assms(2) by (cases rs) auto
  define r0 where "r0 = setdefault ''params'' (PDict []) r"
  from assms rs obtain d where
    p: "map_of r0 ''params'' = Some (PDict d)" and
    out: "out = AList.update ''params'' (PDict (AList.update ''cover'' (PBool True) d)) r0 # rest"
    by (auto simp: ensure_cover_def Let_def r0_def bindE_eq_Inr py_getitem_Inr py_setitem_Inr)
  have "has_cover (hd out)"
    by (simp add: out has_cover_def dict_get_update)
  moreover have "\<forall>k. k \<noteq> ''params'' \<longrightarrow> map_of (hd out) k = map_of (hd rs) k"
    by (simp add: out rs update_conv' r0_def map_of_setdefault)
  moreover have "\<forall>k. k \<noteq> ''cover'' \<longrightarrow> param_of (hd out) k = param_of (hd rs) k"
    using p
    by (auto simp: out rs param_of_def update_conv' r0_def map_of_setdefault
        split: option.splits if_splits)
  ultimately show ?thesis
    by (simp add: out rs)
qed

lemma ensure_cover_keeps: "list_ex has_cover rs \<or> rs = [] \<Longrightarrow> ensure_cover rs = Inr rs"
  by (auto simp: ensure_cover_def)



section \<open>The merge of one entry\<close>

lemma fill_key_dict:
  assumes "map_of des ''params'' = Some (PDict dp)"
  shows "fill_key des (PDict d) key =
     Inr (PDict (if empty_opt (map_of d key) \<and> \<not> empty_opt (map_of dp key)
                 then AList.update key (the (map_of dp key)) d else d))"
  using assms
  by (auto simp: fill_key_def py_contains_def py_get_def py_getitem_def py_setitem_def
      dict_get_def empty_opt_def is_empty3_def split: option.splits)

lemma fill_key_nondict:
  assumes "fill_key des p key = Inr p'" and "\<forall>d. p \<noteq> PDict d"
    and "map_of des ''params'' = Some (PDict dp)"
  shows "p' = p \<and> empty_opt (map_of dp key)"
  using assms
  by (cases p)
    (auto simp: fill_key_def py_contains_def py_get_def py_getitem_def py_setitem_def
      bindE_eq_Inr empty_opt_def dict_get_def split: if_splits option.splits)

lemma fill_key_dict_map:
  assumes "map_of des ''params'' = Some (PDict dp)"
  shows "\<exists>d'. fill_key des (PDict d) key = Inr (PDict d') \<and>
     (\<forall>k. map_of d' k = (if k = key \<and> empty_opt (map_of d key) \<and> \<not> empty_opt (map_of dp key)
                          then map_of dp key else map_of d k))"
  unfolding fill_key_dict [OF assms]
  by (auto simp: update_conv' empty_opt_def split: option.splits)

lemma merge_existing_dict:
  assumes "merge_existing src des r = Inr r'" and "map_of des ''params'' = Some (PDict dp)"
    and "map_of r ''params'' = None \<or> (\<exists>d. map_of r ''params'' = Some (PDict d))"
  shows "\<exists>d'. map_of r' ''params'' = Some (PDict d') \<and>
     (\<forall>k. map_of d' k = (if k \<in> {''date'', ''location'', ''tags''} \<and> empty_opt (param_of r k) \<and> \<not> empty_opt (map_of dp k)
          then map_of dp k else param_of r k))"
proof -
  define r2 where "r2 = setdefault ''params'' (PDict []) (AList.update ''title'' (PStr (path_stem src)) r)"
  from assms(3) obtain d where d: "map_of r2 ''params'' = Some (PDict d)" and pd: "\<forall>k. param_of r k = map_of d k"
    by (auto simp: r2_def map_of_setdefault update_conv' param_of_def)
  then have dg: "dict_get r2 ''params'' = PDict d"
    by (simp add: dict_get_def)
  obtain d1 where f1: "fill_key des (PDict d) ''date'' = Inr (PDict d1)"
    and m1: "\<forall>k. map_of d1 k = (if k = ''date'' \<and> empty_opt (map_of d ''date'') \<and> \<not> empty_opt (map_of dp ''date'')
                          then map_of dp ''date'' else map_of d k)"
    using fill_key_dict_map [OF assms(2), of d "''date''"] by blast
  obtain d2 where f2: "fill_key des (PDict d1) ''location'' = Inr (PDict d2)"
    and m2: "\<forall>k. map_of d2 k = (if k = ''location'' \<and> empty_opt (map_of d1 ''location'') \<and> \<not> empty_opt (map_of dp ''location'')
                          then map_of dp ''location'' else map_of d1 k)"
    using fill_key_dict_map [OF assms(2), of d1 "''location''"] by blast
  obtain d3 where f3: "fill_key des (PDict d2) ''tags'' = Inr (PDict d3)"
    and m3: "\<forall>k. map_of d3 k = (if k = ''tags'' \<and> empty_opt (map_of d2 ''tags'') \<and> \<not> empty_opt (map_of dp ''tags'')
                          then map_of dp ''tags'' else map_of d2 k)"
    using fill_key_dict_map [OF assms(2), of d2 "''tags''"] by blast
  have r': "r' = AList.update ''params'' (PDict d3) r2"
    using assms(1) by (simp add: merge_existing_def Let_def r2_def [symmetric] dg f1 f2 f3)
  have "\<forall>k. map_of d3 k = (if k \<in> {''date'', ''location'', ''tags''} \<and> empty_opt (map_of d k) \<and> \<not> empty_opt (map_of dp k)
          then map_of dp k else map_of d k)"
    by (auto simp: m1 m2 m3)
  then show ?thesis
    by (auto simp: r' update_conv' pd)
qed

lemma merge_existing_nondict:
  assumes "merge_existing src des r = Inr r'"
    and "map_of r ''params'' = Some p" and "\<forall>d. p \<noteq> PDict d"
    and "map_of des ''params'' = Some (PDict dp)"
  shows "map_of r' ''params'' = Some p
    \<and> empty_opt (map_of dp ''date'') \<and> empty_opt (map_of dp ''location'')
    \<and> empty_opt (map_of dp ''tags'')"
proof -
  define r2 where "r2 = setdefault ''params'' (PDict []) (AList.update ''title'' (PStr (path_stem src)) r)"
  have dg: "dict_get r2 ''params'' = p" and m: "map_of r2 ''params'' = Some p"
    using assms(2) by (simp_all add: dict_get_def r2_def map_of_setdefault update_conv')
  from assms(1) obtain p1 p2 p3 where
    f1: "fill_key des p ''date'' = Inr p1" and f2: "fill_key des p1 ''location'' = Inr p2"
    and f3: "fill_key des p2 ''tags'' = Inr p3" and r': "r' = AList.update ''params'' p3 r2"
    by (auto simp: merge_existing_def Let_def r2_def [symmetric] dg bindE_eq_Inr)
  have e1: "p1 = p \<and> empty_opt (map_of dp ''date'')"
    using fill_key_nondict [OF f1 assms(3) assms(4)] .
  then have e2: "p2 = p \<and> empty_opt (map_of dp ''location'')"
    using fill_key_nondict [OF f2 _ assms(4)] assms(3) by simp
  then have e3: "p3 = p \<and> empty_opt (map_of dp ''tags'')"
    using fill_key_nondict [OF f3 _ assms(4)] assms(3) by simp
  show ?thesis
    using e1 e2 e3 by (simp add: r' update_conv')
qed

lemma merge_existing_top:
  assumes "merge_existing src des r = Inr r'"
  shows "map_of r' ''title'' = Some (PStr (path_stem src))
    \<and> (\<forall>k. k \<noteq> ''title'' \<and> k \<noteq> ''params'' \<longrightarrow> map_of r' k = map_of r k)"
  using assms
  by (auto simp: merge_existing_def Let_def bindE_eq_Inr update_conv' map_of_setdefault)

lemma params_is_dict_cases:
  "params_is_dict r \<longleftrightarrow> map_of r ''params'' = None \<or> (\<exists>d. map_of r ''params'' = Some (PDict d))"
  by (auto simp: params_is_dict_def split: option.splits pyval.splits)

lemma not_params_is_dict:
  "\<not> params_is_dict r \<longleftrightarrow> (\<exists>p. map_of r ''params'' = Some p \<and> (\<forall>d. p \<noteq> PDict d))"
  by (auto simp: params_is_dict_def split: option.splits pyval.splits)

lemma merge_existing_param_of:
  assumes "merge_existing src des r = Inr r'" and "map_of des ''params'' = Some (PDict dp)"
  shows "param_of r' k =
     (if k \<in> {''date'', ''location'', ''tags''} \<and> empty_opt (param_of r k) \<and> \<not> empty_opt (map_of dp k)
      then map_of dp k else param_of r k)"
proof (cases "params_is_dict r")
  case True
  then show ?thesis
    using merge_existing_dict [OF assms] by (auto simp: params_is_dict_cases param_of_def)
next
  case False
  then obtain p where p: "map_of r ''params'' = Some p" "\<forall>d. p \<noteq> PDict d"
    by (auto simp: not_params_is_dict)
  from merge_existing_nondict [OF assms(1) p assms(2)] p show ?thesis
    by (cases p) (auto simp: param_of_def)
qed

lemma merge_existing_params_is_dict:
  assumes "merge_existing src des r = Inr r'" and "map_of des ''params'' = Some (PDict dp)"
  shows "params_is_dict r' = params_is_dict r \<and> map_of r' ''params'' \<noteq> None"
proof (cases "params_is_dict r")
  case True
  then show ?thesis
    using merge_existing_dict [OF assms] by (auto simp: params_is_dict_cases)
next
  case False
  then obtain p where p: "map_of r ''params'' = Some p" "\<forall>d. p \<noteq> PDict d"
    by (auto simp: not_params_is_dict)
  from merge_existing_nondict [OF assms(1) p assms(2)] p show ?thesis
    by (auto simp: params_is_dict_cases)
qed

lemma existing_weight_alt:
  "existing_weight r = (if params_is_dict r then Inr (valid_weight r) else Inl AttributeError)"
  by (auto simp: existing_weight_def params_is_dict_def valid_weight_def param_of_def py_get_def
      dict_get_def py_int_def split: option.splits pyval.splits)

lemma merge_existing_weight:
  assumes "merge_existing src des r = Inr r'" and "map_of des ''params'' = Some (PDict dp)"
  shows "existing_weight r' = existing_weight r"
  using merge_existing_params_is_dict [OF assms] merge_existing_param_of [OF assms, of "''weight''"]
  by (simp add: existing_weight_alt valid_weight_def)

section \<open>The merge loop\<close>

lemma same_weights_refl: "same_weights ex ex"
  by (simp add: same_weights_def list.rel_refl)

lemma same_weights_trans: "same_weights a b \<Longrightarrow> same_weights b c \<Longrightarrow> same_weights a c"
  by (auto simp: same_weights_def list_all2_conv_all_nth)

lemma same_weights_update:
  assumes "map_of ex k = Some r" and "existing_weight r' = existing_weight r"
  shows "same_weights ex (AList.update k r' ex)"
  using assms
proof (induction ex)
  case Nil
  then show ?case by simp
next
  case (Cons p ps)
  show ?case
  proof (cases "fst p = k")
    case True
    with Cons.prems show ?thesis
      by (cases p) (simp add: same_weights_def list.rel_refl)
  next
    case False
    with Cons show ?thesis
      by (cases p) (simp add: same_weights_def)
  qed
qed

lemma merge_one_update:
  "s \<noteq> src \<Longrightarrow> merge_one desired (AList.update (KStr src) r' ex) s = merge_one desired ex s"
  by (simp add: merge_one_def update_conv' cong: option.case_cong)

lemma merge_loop_spec:
  assumes "distinct srcs" and "desired_ok desired"
    and "merge_loop desired srcs ex merged = Inr (ex', out)"
  shows "\<exists>new. out = merged @ new
    \<and> list_all2 (\<lambda>s r'. merge_one desired ex s = Inr r') srcs new
    \<and> same_weights ex ex'"
  using assms(1,3)
proof (induction srcs arbitrary: ex merged)
  case Nil
  then show ?case
    by (simp add: same_weights_refl)
next
  case (Cons src srcs)
  from Cons.prems obtain des where des: "map_of desired src = Some des"
    by (auto split: option.splits)
  from assms(2) des obtain dp where dp: "map_of des ''params'' = Some (PDict dp)"
    by (auto simp: desired_ok_def)
  show ?case
  proof (cases "map_of ex (KStr src)")
    case None
    with Cons.prems des have "merge_loop desired srcs ex (merged @ [des]) = Inr (ex', out)"
      by simp
    with Cons.IH [of ex "merged @ [des]"] Cons.prems(1) obtain new where
      "out = (merged @ [des]) @ new"
      "list_all2 (\<lambda>s r'. merge_one desired ex s = Inr r') srcs new" "same_weights ex ex'"
      by auto
    moreover have "merge_one desired ex src = Inr des"
      by (simp add: merge_one_def des None)
    ultimately show ?thesis
      by (intro exI [of _ "des # new"]) simp
  next
    case (Some r)
    with Cons.prems des obtain r' where r': "merge_existing src des r = Inr r'"
      and loop: "merge_loop desired srcs (AList.update (KStr src) r' ex) (merged @ [r']) = Inr (ex', out)"
      by (auto simp: bindE_eq_Inr)
    from Cons.IH [OF _ loop] Cons.prems(1) obtain new where
      out: "out = (merged @ [r']) @ new"
      and all: "list_all2 (\<lambda>s r''. merge_one desired (AList.update (KStr src) r' ex) s = Inr r'') srcs new"
      and sw: "same_weights (AList.update (KStr src) r' ex) ex'"
      by auto
    have "\<And>z. z \<in> set srcs \<Longrightarrow> z \<noteq> src"
      using Cons.prems(1) by auto
    then have "list_all2 (\<lambda>s r''. merge_one desired ex s = Inr r'') srcs new"
      using all by (elim list.rel_mono_strong) (simp add: merge_one_update)
    moreover have "merge_one desired ex src = Inr r'"
      by (simp add: merge_one_def des Some r')
    moreover have "same_weights ex ex'"
      using same_weights_update [OF Some merge_existing_weight [OF r' dp]] sw
      by (rule same_weights_trans)
    ultimately show ?thesis
      using out by (intro exI [of _ "r' # new"]) simp
  qed
qed

lemma merge_one_src:
  assumes "merge_one desired ex s = Inr r'" and "desired_ok desired" and "keyed ex"
  shows "map_of r' ''src'' = Some (PStr s)"
proof -
  from assms(1) obtain des where des: "map_of desired s = Some des"
    by (auto simp: merge_one_def split: option.splits)
  with assms(2) have dsrc: "map_of des ''src'' = Some (PStr s)"
    by (simp add: desired_ok_def)
  show ?thesis
  proof (cases "map_of ex (KStr s)")
    case None
    with assms(1) des dsrc show ?thesis
      by (simp add: merge_one_def)
  next
    case (Some r)
    with assms(3) have "key_of (dict_get r ''src'') = Inr (KStr s)"
      by (simp add: keyed_def)
    then have "map_of r ''src'' = Some (PStr s)"
      by (auto simp: key_of_def dict_get_def split: pyval.splits option.splits if_splits)
    moreover from assms(1) des Some have "merge_existing s des r = Inr r'"
      by (simp add: merge_one_def)
    ultimately show ?thesis
      using merge_existing_top [of s des r r'] by simp
  qed
qed

section \<open>The dictionary of existing entries\<close>

lemma entry_key_Some:
  "entry_key r = Some k \<longleftrightarrow>
     (\<exists>d. r = PDict d \<and> truthy (dict_get d ''src'') \<and> key_of (dict_get d ''src'') = Inr k)"
  by (cases r) (simp_all add: entry_key_def split: sum.splits)

lemma resources_to_dict_from_skip:
  assumes "entry_key r = None" and "resources_to_dict_from acc (r # rs) = Inr ex"
  shows "resources_to_dict_from acc rs = Inr ex"
proof (cases r)
  case (PDict d)
  show ?thesis
  proof (cases "truthy (dict_get d ''src'')")
    case True
    with assms(1) PDict obtain e where "key_of (dict_get d ''src'') = Inl e"
      by (cases "key_of (dict_get d ''src'')") (simp_all add: entry_key_def)
    with assms(2) PDict True show ?thesis
      by simp
  next
    case False
    with assms(2) PDict show ?thesis
      by simp
  qed
qed (use assms(2) in simp_all)

lemma resources_to_dict_from_take:
  assumes "entry_key (PDict d) = Some k"
  shows "resources_to_dict_from acc (PDict d # rs) = resources_to_dict_from (AList.update k d acc) rs"
  using assms by (simp add: entry_key_Some)

lemma resources_to_dict_from_keyed:
  "resources_to_dict_from acc rs = Inr ex \<Longrightarrow> keyed acc \<Longrightarrow> keyed ex"
proof (induction rs arbitrary: acc)
  case Nil
  then show ?case by simp
next
  case (Cons r rs)
  show ?case
  proof (cases "entry_key r")
    case None
    from resources_to_dict_from_skip [OF None Cons.prems(1)] Cons.IH Cons.prems(2)
    show ?thesis by blast
  next
    case (Some k)
    then obtain d where r: "r = PDict d" and k: "key_of (dict_get d ''src'') = Inr k"
      by (auto simp: entry_key_Some)
    from Cons.prems(1) Some have "resources_to_dict_from (AList.update k d acc) rs = Inr ex"
      by (simp add: r resources_to_dict_from_take del: resources_to_dict_from.simps)
    moreover have "keyed (AList.update k d acc)"
      using Cons.prems(2) k by (simp add: keyed_def update_conv')
    ultimately show ?thesis
      using Cons.IH by blast
  qed
qed

lemma resources_to_dict_from_distinct:
  "resources_to_dict_from acc rs = Inr ex \<Longrightarrow> distinct (map fst acc) \<Longrightarrow> distinct (map fst ex)"
proof (induction rs arbitrary: acc)
  case Nil
  then show ?case by simp
next
  case (Cons r rs)
  show ?case
  proof (cases "entry_key r")
    case None
    from resources_to_dict_from_skip [OF None Cons.prems(1)] Cons.IH Cons.prems(2)
    show ?thesis by blast
  next
    case (Some k)
    then obtain d where r: "r = PDict d"
      by (auto simp: entry_key_Some)
    from Cons.prems(1) Some have "resources_to_dict_from (AList.update k d acc) rs = Inr ex"
      by (simp add: r resources_to_dict_from_take del: resources_to_dict_from.simps)
    moreover have "distinct (map fst (AList.update k d acc))"
      using Cons.prems(2) by (rule distinct_update)
    ultimately show ?thesis
      using Cons.IH by blast
  qed
qed



section \<open>The desired entries and the merged list\<close>

lemma build_resource_fields:
  "map_of (build_resource_for_image img tags loc) ''src'' = Some (PStr (img_name img))"
  "map_of (build_resource_for_image img tags loc) ''title'' = Some (PStr (path_stem (img_name img)))"
  "\<exists>dp. map_of (build_resource_for_image img tags loc) ''params'' = Some (PDict dp)"
  "param_of (build_resource_for_image img tags loc) ''weight'' = None"
  "param_of (build_resource_for_image img tags loc) ''cover'' = None"
  by (simp_all add: build_resource_for_image_def Let_def param_of_def)

lemma desired_fold_keys:
  "fst ` set (foldl (\<lambda>d img. AList.update (img_name img) (b img) d) acc imgs)
     = fst ` set acc \<union> img_name ` set imgs"
  by (induction imgs arbitrary: acc) (auto simp: dom_update)

lemma desired_fold_distinct:
  "distinct (map fst acc) \<Longrightarrow>
   distinct (map fst (foldl (\<lambda>d img. AList.update (img_name img) (b img) d) acc imgs))"
  by (induction imgs arbitrary: acc) (simp_all add: distinct_update)

lemma desired_fold_values:
  "map_of (foldl (\<lambda>d img. AList.update (img_name img) (b img) d) acc imgs) s = Some des
   \<Longrightarrow> map_of acc s = Some des \<or> (\<exists>img \<in> set imgs. img_name img = s \<and> des = b img)"
proof (induction imgs arbitrary: acc)
  case Nil
  then show ?case by simp
next
  case (Cons img imgs)
  from Cons.IH [of "AList.update (img_name img) (b img) acc"] Cons.prems
  show ?case
    by (auto simp: update_conv' split: if_splits)
qed

lemma build_desired_keys:
  "set (map fst (build_desired imgs tags loc)) = img_name ` set imgs"
  "distinct (map fst (build_desired imgs tags loc))"
  using desired_fold_keys [of _ "[]" imgs] desired_fold_distinct [of "[]" _ imgs]
  by (simp_all add: build_desired_def)

lemma build_desired_value:
  assumes "map_of (build_desired imgs tags loc) s = Some des"
  shows "\<exists>img \<in> set imgs. img_name img = s \<and> des = build_resource_for_image img tags loc"
  using desired_fold_values [of _ "[]" imgs s des] assms
  by (simp add: build_desired_def)

lemma build_desired_ok: "desired_ok (build_desired imgs tags loc)"
  unfolding desired_ok_def
  using build_desired_value build_resource_fields by blast

lemma existing_of_front_keyed:
  assumes "existing_of_front front = Inr ex"
  shows "keyed ex \<and> distinct (map fst ex)"
proof -
  have k0: "keyed []" by (simp add: keyed_def)
  from assms show ?thesis
    using resources_to_dict_from_keyed [OF _ k0] resources_to_dict_from_distinct [of "[]" _ ex] k0
    by (auto simp: existing_of_front_def resources_to_dict_def split: option.splits pyval.splits)
qed

lemma merge_resources_spec:
  assumes "merge_resources front imgs tags loc = Inr (ex', merged)"
  shows "\<exists>ex. existing_of_front front = Inr ex \<and> same_weights ex ex'
    \<and> list_all2 (\<lambda>s r'. merge_one (build_desired imgs tags loc) ex s = Inr r')
         (sort (map fst (build_desired imgs tags loc))) merged"
proof -
  from assms obtain ex where ex: "existing_of_front front = Inr ex"
    and loop: "merge_loop (build_desired imgs tags loc)
        (sort (map fst (build_desired imgs tags loc))) ex [] = Inr (ex', merged)"
    by (auto simp: merge_resources_def Let_def bindE_eq_Inr)
  have "distinct (sort (map fst (build_desired imgs tags loc)))"
    by (simp add: build_desired_keys)
  from merge_loop_spec [OF this build_desired_ok loop] ex show ?thesis
    by auto
qed

lemma merge_resources_srcs:
  assumes "merge_resources front imgs tags loc = Inr (ex', merged)"
  shows "map (\<lambda>r. map_of r ''src'') merged
    = map (\<lambda>s. Some (PStr s)) (sort (map fst (build_desired imgs tags loc)))"
proof -
  from merge_resources_spec [OF assms] obtain ex where ex: "existing_of_front front = Inr ex"
    and all: "list_all2 (\<lambda>s r'. merge_one (build_desired imgs tags loc) ex s = Inr r')
         (sort (map fst (build_desired imgs tags loc))) merged"
    by blast
  have "keyed ex"
    using existing_of_front_keyed [OF ex] by simp
  then have "list_all2 (\<lambda>s r'. map_of r' ''src'' = Some (PStr s))
      (sort (map fst (build_desired imgs tags loc))) merged"
    using all merge_one_src build_desired_ok
    by (elim list.rel_mono_strong) blast
  then show ?thesis
    by (induction rule: list_all2_induct) auto
qed

section \<open>The weights\<close>

lemma py_contains_dict: "py_contains k (PDict d) = Inr (map_of d k \<noteq> None)"
  by (simp add: py_contains_def)

lemma assign_weights_step:
  assumes "assign_weights n (r # rs) = Inr out"
  shows "\<exists>d out'. map_of r ''params'' = Some (PDict d)
    \<and> assign_weights (if lacks_weight r then n + 1 else n) rs = Inr out'
    \<and> out = (if lacks_weight r
              then AList.update ''params'' (PDict (AList.update ''weight'' (PInt n) d)) r
              else r) # out'"
proof -
  from assms obtain p where p: "map_of r ''params'' = Some p"
    by (auto simp: bindE_eq_Inr py_getitem_Inr)
  show ?thesis
  proof (cases p)
    case (PDict d)
    have lw: "lacks_weight r \<longleftrightarrow> (map_of d ''weight'' = None \<or> is_empty2 (the (map_of d ''weight'')))"
      by (auto simp: lacks_weight_def param_of_def p PDict split: option.splits)
    from assms show ?thesis
      by (auto simp: p PDict py_getitem_def py_contains_dict py_setitem_def lw bindE_eq_Inr
          split: if_splits)
  next
    case PNone
    with assms p show ?thesis by (simp add: py_getitem_def py_contains_def)
  next
    case (PBool b)
    with assms p show ?thesis by (simp add: py_getitem_def py_contains_def)
  next
    case (PInt i)
    with assms p show ?thesis by (simp add: py_getitem_def py_contains_def)
  next
    case (PStr s)
    with assms p show ?thesis
      by (simp add: py_getitem_def py_contains_def py_setitem_def split: if_splits)
  next
    case (PList xs)
    with assms p show ?thesis
      by (simp add: py_getitem_def py_contains_def py_setitem_def split: if_splits)
  qed
qed

lemma reweighted_assign:
  assumes "map_of r ''params'' = Some (PDict d)"
  shows "reweighted r n (if lacks_weight r
              then AList.update ''params'' (PDict (AList.update ''weight'' (PInt n) d)) r
              else r)"
  using assms by (simp add: reweighted_def param_of_def update_conv')

lemma assign_weights_nth:
  assumes "assign_weights n rs = Inr out"
  shows "length out = length rs \<and> (\<forall>i < length rs.
     reweighted (rs ! i) (n + int (length (filter lacks_weight (take i rs)))) (out ! i))"
  using assms
proof (induction rs arbitrary: n out)
  case Nil
  then show ?case by simp
next
  case (Cons r rs)
  from assign_weights_step [OF Cons.prems] obtain d out' where
    d: "map_of r ''params'' = Some (PDict d)"
    and rec: "assign_weights (if lacks_weight r then n + 1 else n) rs = Inr out'"
    and out: "out = (if lacks_weight r
              then AList.update ''params'' (PDict (AList.update ''weight'' (PInt n) d)) r
              else r) # out'"
    by blast
  from Cons.IH [OF rec] have len: "length out' = length rs"
    and ih: "\<forall>i < length rs. reweighted (rs ! i)
        ((if lacks_weight r then n + 1 else n) + int (length (filter lacks_weight (take i rs))))
        (out' ! i)"
    by simp_all
  have "reweighted ((r # rs) ! i) (n + int (length (filter lacks_weight (take i (r # rs))))) (out ! i)"
    if "i < length (r # rs)" for i
  proof (cases i)
    case 0
    then show ?thesis
      using reweighted_assign [OF d, of n] by (simp add: out)
  next
    case (Suc j)
    with that have "j < length rs" by simp
    with ih have "reweighted (rs ! j)
        ((if lacks_weight r then n + 1 else n) + int (length (filter lacks_weight (take j rs))))
        (out' ! j)"
      by blast
    moreover have "(if lacks_weight r then n + 1 else n) + int (length (filter lacks_weight (take j rs)))
        = n + int (length (filter lacks_weight (take i (r # rs))))"
      by (simp add: Suc)
    ultimately show ?thesis
      by (simp add: Suc out)
  qed
  then show ?case
    using len by (simp add: out)
qed

lemma lacks_weight_setdefault:
  "lacks_weight (setdefault ''params'' (PDict []) r) = lacks_weight r"
  "param_of (setdefault ''params'' (PDict []) r) k = param_of r k"
  by (auto simp: lacks_weight_def param_of_def map_of_setdefault split: option.splits)

lemma setdefault_present: "map_of r k \<noteq> None \<Longrightarrow> setdefault k v r = r"
  by (auto simp: setdefault_def)

lemma reweighted_setdefault:
  assumes "reweighted (setdefault ''params'' (PDict []) r) w r'"
  shows "reweighted r w r'"
proof (cases "lacks_weight r")
  case True
  with assms show ?thesis
    by (simp add: reweighted_def lacks_weight_setdefault map_of_setdefault)
next
  case False
  then have "map_of r ''params'' \<noteq> None"
    by (auto simp: lacks_weight_def param_of_def split: option.splits)
  with assms show ?thesis
    by (simp add: setdefault_present)
qed

lemma update_fresh: "k \<notin> fst ` set al \<Longrightarrow> AList.update k v al = al @ [(k, v)]"
  by (induction al) auto

lemma valid_weights_Cons:
  "valid_weights ((k, r) # rest) =
     (case valid_weight r of None \<Rightarrow> valid_weights rest | Some w \<Rightarrow> w # valid_weights rest)"
  by (simp add: valid_weights_def map_filter_simps split: option.splits)

lemma collect_weights_spec:
  assumes "distinct (map fst prev)" and "fst ` set acc \<inter> fst ` set prev = {}"
    and "collect_weights acc prev = Inr ws"
  shows "map snd ws = map snd acc @ valid_weights prev"
  using assms
proof (induction prev arbitrary: acc)
  case Nil
  then show ?case by (simp add: valid_weights_def map_filter_simps)
next
  case (Cons kr rest)
  obtain k r where kr: "kr = (k, r)" by (cases kr)
  from Cons.prems(3) obtain w where w: "existing_weight r = Inr w"
    and rec: "collect_weights (case w of None \<Rightarrow> acc | Some n \<Rightarrow> AList.update k n acc) rest = Inr ws"
    by (auto simp: kr bindE_eq_Inr)
  from w have vw: "w = valid_weight r"
    by (simp add: existing_weight_alt split: if_splits)
  have fresh: "k \<notin> fst ` set acc" and later: "k \<notin> fst ` set rest"
    using Cons.prems(1,2) by (auto simp: kr)
  have acc2: "(case w of None \<Rightarrow> acc | Some n \<Rightarrow> AList.update k n acc)
      = (case w of None \<Rightarrow> acc | Some n \<Rightarrow> acc @ [(k, n)])"
    using fresh by (simp add: update_fresh split: option.splits)
  have disj: "fst ` set (case w of None \<Rightarrow> acc | Some n \<Rightarrow> acc @ [(k, n)]) \<inter> fst ` set rest = {}"
    using Cons.prems(2) later by (auto simp: kr split: option.splits)
  from Cons.IH [OF _ disj] rec Cons.prems(1)
  have "map snd ws = map snd (case w of None \<Rightarrow> acc | Some n \<Rightarrow> acc @ [(k, n)]) @ valid_weights rest"
    by (simp add: acc2)
  then show ?case
    by (simp add: kr valid_weights_Cons vw [symmetric] split: option.splits)
qed

lemma foldl_max: "foldl max (w :: int) ws = Max (set (w # ws))"
proof (induction ws arbitrary: w)
  case Nil
  then show ?case by simp
next
  case (Cons x xs)
  have "Max (insert (max w x) (set xs)) = Max (insert w (insert x (set xs)))"
    by (cases "xs = []") (auto simp: max.assoc)
  with Cons show ?case by simp
qed

lemma py_max_Max: "py_max ws d = (if ws = [] then d else Max (set ws))"
  by (cases ws) (simp_all add: py_max_def foldl_max)

lemma collect_weights_cong:
  "same_weights ex ex' \<Longrightarrow> collect_weights acc ex' = collect_weights acc ex"
  unfolding same_weights_def
proof (induction ex ex' arbitrary: acc rule: list_all2_induct)
  case Nil
  then show ?case by simp
next
  case (Cons a as b bs)
  then show ?case
    by (cases a; cases b) simp
qed

lemma update_weights_spec:
  assumes "distinct (map fst prev)" and "same_weights prev prev'"
    and "update_weights_preserve_existing rs prev' = Inr out"
  shows "length out = length rs \<and> (\<forall>i < length rs.
     reweighted (rs ! i) (max_weight prev + 1 + int (length (filter lacks_weight (take i rs)))) (out ! i))"
proof -
  from assms(3) obtain ws where ws: "collect_weights [] prev' = Inr ws"
    and asg: "assign_weights (py_max (map snd ws) 0 + 1)
        (map (setdefault ''params'' (PDict [])) rs) = Inr out"
    by (auto simp: update_weights_preserve_existing_def Let_def bindE_eq_Inr)
  from ws have "collect_weights [] prev = Inr ws"
    by (simp add: collect_weights_cong [OF assms(2)])
  from collect_weights_spec [OF assms(1) _ this] have "map snd ws = valid_weights prev"
    by simp
  then have mw: "py_max (map snd ws) 0 = max_weight prev"
    by (simp add: py_max_Max max_weight_def)
  let ?sd = "setdefault ''params'' (PDict [])"
  have cnt: "length (filter lacks_weight (take i (map ?sd rs))) = length (filter lacks_weight (take i rs))" for i
    by (simp add: take_map filter_map o_def lacks_weight_setdefault)
  from assign_weights_nth [OF asg] have len: "length out = length rs"
    and all: "\<forall>i < length rs. reweighted (?sd (rs ! i))
        (max_weight prev + 1 + int (length (filter lacks_weight (take i rs)))) (out ! i)"
    by (simp_all add: mw cnt)
  then show ?thesis
    using reweighted_setdefault by blast
qed

section \<open>The reconciled list\<close>

lemma ensure_cover_frame:
  assumes "ensure_cover rs = Inr out"
  shows "length out = length rs \<and> (\<forall>i < length rs.
      (\<forall>k. k \<noteq> ''params'' \<longrightarrow> map_of (out ! i) k = map_of (rs ! i) k)
    \<and> (\<forall>k. k \<noteq> ''cover'' \<longrightarrow> param_of (out ! i) k = param_of (rs ! i) k))"
proof (cases "list_ex has_cover rs \<or> rs = []")
  case True
  with assms ensure_cover_keeps [of rs] show ?thesis
    by simp
next
  case False
  with ensure_cover_sets_first [of rs out] assms have first: "tl out = tl rs" "out \<noteq> []"
    "\<forall>k. k \<noteq> ''params'' \<longrightarrow> map_of (hd out) k = map_of (hd rs) k"
    "\<forall>k. k \<noteq> ''cover'' \<longrightarrow> param_of (hd out) k = param_of (hd rs) k"
    by blast+
  from False obtain r rest where rs: "rs = r # rest"
    by (cases rs) auto
  from first(2) obtain o' orest where out: "out = o' # orest"
    by (cases out) auto
  from first(1) have orest: "orest = rest"
    by (simp add: rs out)
  have "(\<forall>k. k \<noteq> ''params'' \<longrightarrow> map_of (out ! i) k = map_of (rs ! i) k)
    \<and> (\<forall>k. k \<noteq> ''cover'' \<longrightarrow> param_of (out ! i) k = param_of (rs ! i) k)"
    if "i < length rs" for i
    using first(3,4) by (cases i) (simp_all add: rs out orest)
  then show ?thesis
    by (simp add: rs out orest)
qed

lemma reweighted_src:
  "reweighted r w r' \<Longrightarrow> k \<noteq> ''params'' \<Longrightarrow> map_of r' k = map_of r k"
  by (auto simp: reweighted_def split: if_splits)

lemma reconcile_steps:
  assumes "reconcile front imgs tags loc = Inr final"
  shows "\<exists>ex' merged out. merge_resources front imgs tags loc = Inr (ex', merged)
     \<and> update_weights_preserve_existing merged ex' = Inr out \<and> ensure_cover out = Inr final"
  using assms by (auto simp: reconcile_def bindE_eq_Inr)

lemma map_eq_nth:
  assumes "length xs = length ys" and "\<forall>i < length xs. f (xs ! i) = g (ys ! i)"
  shows "map f xs = map g ys"
  using assms by (simp add: list_eq_iff_nth_eq)

lemma reconcile_srcs:
  assumes "reconcile front imgs tags loc = Inr final"
  shows "map (\<lambda>r. map_of r ''src'') final
    = map (\<lambda>s. Some (PStr s)) (sort (map fst (build_desired imgs tags loc)))"
proof -
  from reconcile_steps [OF assms] obtain ex' merged out where
    m: "merge_resources front imgs tags loc = Inr (ex', merged)"
    and u: "update_weights_preserve_existing merged ex' = Inr out"
    and c: "ensure_cover out = Inr final"
    by blast
  from merge_resources_spec [OF m] obtain ex where ex: "existing_of_front front = Inr ex"
    and sw: "same_weights ex ex'"
    by blast
  from update_weights_spec [OF _ sw u] existing_of_front_keyed [OF ex]
  have lo: "length out = length merged" and
    ro: "\<forall>i < length merged. map_of (out ! i) ''src'' = map_of (merged ! i) ''src''"
    using reweighted_src by (simp, fastforce)
  from ensure_cover_frame [OF c]
  have lf: "length final = length out" and
    rf: "\<forall>i < length out. map_of (final ! i) ''src'' = map_of (out ! i) ''src''"
    by simp_all
  have "map (\<lambda>r. map_of r ''src'') final = map (\<lambda>r. map_of r ''src'') merged"
    using lo ro lf rf by (intro map_eq_nth) simp_all
  with merge_resources_srcs [OF m] show ?thesis
    by simp
qed


lemma sorted_desired_keys:
  "sort (map fst (build_desired imgs tags loc)) = sorted_list_of_set (img_name ` set imgs)"
proof -
  have "sorted_list_of_set (set (map fst (build_desired imgs tags loc)))
      = sort (remdups (map fst (build_desired imgs tags loc)))"
    by (rule sorted_list_of_set_sort_remdups)
  then show ?thesis
    by (simp add: build_desired_keys distinct_remdups_id del: set_map)
qed





section \<open>The claims on the merge\<close>

text \<open>
  Claim C5. The \<open>src\<close> values of the list a run produces are the names of the images
  in the directory, each once and in ascending order; so no entry of the output has a
  \<open>src\<close> that is not in the listing, whatever the manifest held.
\<close>

theorem reconcile_key_set:
  assumes "reconcile front imgs tags loc = Inr final"
  shows "\<exists>srcs. map (\<lambda>r. map_of r ''src'') final = map (\<lambda>s. Some (PStr s)) srcs
      \<and> sorted_wrt (<) srcs \<and> set srcs = img_name ` set imgs
      \<and> (\<forall>r \<in> set final. \<exists>s \<in> img_name ` set imgs. map_of r ''src'' = Some (PStr s))"
proof -
  let ?srcs = "sorted_list_of_set (img_name ` set imgs)"
  have m: "map (\<lambda>r. map_of r ''src'') final = map (\<lambda>s. Some (PStr s)) ?srcs"
    using reconcile_srcs [OF assms] by (simp add: sorted_desired_keys)
  have s: "sorted_wrt (<) ?srcs" and e: "set ?srcs = img_name ` set imgs"
    by simp_all
  have "\<exists>s \<in> img_name ` set imgs. map_of r ''src'' = Some (PStr s)" if "r \<in> set final" for r
  proof -
    from that have "map_of r ''src'' \<in> set (map (\<lambda>r. map_of r ''src'') final)"
      by simp
    with m e show ?thesis
      by auto
  qed
  with m s e show ?thesis
    by blast
qed

theorem reconcile_key_set_witness:
  "reconcile example_front example_images [''trip'', ''2024''] ''Kerala'' = Inr example_final
   \<and> map (\<lambda>r. map_of r ''src'') example_final
       = [Some (PStr ''a.jpg''), Some (PStr ''b.jpg''), Some (PStr ''c.jpg'')]"
proof -
  have h: "reconcile example_front example_images [''trip'', ''2024''] ''Kerala'' = Inr example_final"
    by code_simp
  from reconcile_key_set [OF h] have "\<forall>r \<in> set example_final.
      \<exists>s \<in> img_name ` set example_images. map_of r ''src'' = Some (PStr s)"
    by blast
  then have "\<exists>s \<in> img_name ` set example_images.
      map_of (hd example_final) ''src'' = Some (PStr s)"
    by (auto simp: example_final_def)
  with h show ?thesis
    by (simp add: example_final_def)
qed



section \<open>The claims on the weights\<close>







section \<open>The claims on the run\<close>





text \<open>
  Claim C2. A second run on the text the first run wrote should write the same text. On
  an empty directory whose manifest has a body that ends in an empty line, the first run
  writes the body with its last line feed and the second run, which reads that text,
  writes it without: \<open>split_front_matter\<close> rebuilds the body from \<open>splitlines\<close>.
\<close>

theorem second_run_differs:
  "main example_yaml example_dir example_args
     = Inr ''---\<newline>title: T\<newline>resources: []\<newline>---\<newline>Body\<newline>''
   \<and> main example_yaml
       (example_dir\<lparr>index_text := Some ''---\<newline>title: T\<newline>resources: []\<newline>---\<newline>Body\<newline>''\<rparr>)
       example_args
     = Inr ''---\<newline>title: T\<newline>resources: []\<newline>---\<newline>Body''"
  by code_simp

end
